theory Spec2Isabelle
  imports Main "HOL-Library.Sublist" "HOL-Library.Word"
begin

section \<open>Go errors\<close>

text \<open>
  The code builds its errors with \<^verbatim>\<open>fmt.Errorf\<close>. An error made with the verb
  \<^verbatim>\<open>%w\<close> is a \<^verbatim>\<open>*fmt.wrapError\<close>: it stores the fully formatted message and
  the operand of \<^verbatim>\<open>%w\<close>, which \<^verbatim>\<open>Unwrap\<close> gives back. Every other error (one
  coming from the driver or from the caller's function) is a leaf carrying its message.
\<close>

datatype goerror = ErrorString string | WrapError string goerror

fun Error :: "goerror \<Rightarrow> string" where
  "Error (ErrorString s) = s"
| "Error (WrapError s w) = s"

fun Unwrap :: "goerror \<Rightarrow> goerror option" where
  "Unwrap (ErrorString s) = None"
| "Unwrap (WrapError s w) = Some w"

text \<open>The chain that \<^verbatim>\<open>errors.Is\<close> and \<^verbatim>\<open>errors.Unwrap\<close> walk: the error itself, then
  what it wraps, and so on.\<close>

fun unwrap_chain :: "goerror \<Rightarrow> goerror list" where
  "unwrap_chain (ErrorString s) = [ErrorString s]"
| "unwrap_chain (WrapError s w) = WrapError s w # unwrap_chain w"

definition errors_Is :: "goerror \<Rightarrow> goerror \<Rightarrow> bool" where
  "errors_Is err target = (target \<in> set (unwrap_chain err))"

text \<open>\<^verbatim>\<open>fmt.Errorf(pre + ": %w", err)\<close>, the shape of every single-operand wrap in the
  package.\<close>

definition Errorf_w :: "string \<Rightarrow> goerror \<Rightarrow> goerror" where
  "Errorf_w pre err = WrapError (pre @ '': '' @ Error err) err"

text \<open>\<^verbatim>\<open>fmt.Errorf("rollback failed: %v, original error: %w", rbErr, err)\<close>: the rollback
  error is formatted into the message with \<^verbatim>\<open>%v\<close>, the original error is the operand of
  \<^verbatim>\<open>%w\<close>.\<close>

definition Errorf_rollback :: "goerror \<Rightarrow> goerror \<Rightarrow> goerror" where
  "Errorf_rollback rbErr err =
     WrapError (''rollback failed: '' @ Error rbErr @ '', original error: '' @ Error err) err"

section \<open>WithTx (pkg/database/connection.go)\<close>

text \<open>
  What the function passed to \<^verbatim>\<open>WithTx\<close> can do: return an error value (\<open>None\<close> is Go's
  \<^verbatim>\<open>nil\<close>) or panic with a value. A panic always carries a non-nil value: since Go 1.21
  \<^verbatim>\<open>panic(nil)\<close> raises a \<^verbatim>\<open>*runtime.PanicNilError\<close>. Before it does either, the function
  may have issued statements on the transaction handle; they are the first component.
\<close>

datatype 'p outcome = Returns "goerror option" | Panics 'p

type_synonym ('tx, 's, 'p) txfn = "'tx \<Rightarrow> 's list \<times> 'p outcome"

text \<open>The calls that reach the pool and the transaction, in the order they are made.\<close>

datatype ('tx, 's) event = Begin | Invoke 'tx | Stmt 's | Rollback 'tx | Commit 'tx

text \<open>The driver, as far as \<^verbatim>\<open>WithTx\<close> sees it: what \<^verbatim>\<open>pool.Begin\<close>, \<^verbatim>\<open>tx.Rollback\<close> and
  \<^verbatim>\<open>tx.Commit\<close> answer.\<close>

record 'tx driver =
  pool_Begin :: "goerror + 'tx"
  tx_Rollback :: "'tx \<Rightarrow> goerror option"
  tx_Commit :: "'tx \<Rightarrow> goerror option"

text \<open>How a Go function ends: it returns its result or it unwinds with a panic.\<close>

datatype 'p exit = Return "goerror option" | Panic 'p

text \<open>\<^verbatim>\<open>recover()\<close> in a deferred function: the panic value while panicking, \<^verbatim>\<open>nil\<close>
  otherwise.\<close>

fun recover :: "'p exit \<Rightarrow> 'p option" where
  "recover (Return r) = None"
| "recover (Panic p) = Some p"

text \<open>The statements of \<^verbatim>\<open>WithTx\<close> after the \<^verbatim>\<open>defer\<close>: call \<^verbatim>\<open>fn(tx)\<close>; on an error roll
  back and return the error (wrapped with the rollback error when the rollback fails too);
  otherwise commit. A panic of \<^verbatim>\<open>fn\<close> leaves the body at once.\<close>

definition WithTx_body ::
  "'tx driver \<Rightarrow> ('tx, 's, 'p) txfn \<Rightarrow> 'tx \<Rightarrow> ('tx, 's) event list \<times> 'p exit" where
  "WithTx_body drv fn tx =
     (case fn tx of
        (ss, Panics p) \<Rightarrow> (Invoke tx # map Stmt ss, Panic p)
      | (ss, Returns (Some err)) \<Rightarrow>
          (case tx_Rollback drv tx of
             Some rbErr \<Rightarrow>
               (Invoke tx # map Stmt ss @ [Rollback tx], Return (Some (Errorf_rollback rbErr err)))
           | None \<Rightarrow> (Invoke tx # map Stmt ss @ [Rollback tx], Return (Some err)))
      | (ss, Returns None) \<Rightarrow>
          (case tx_Commit drv tx of
             Some err \<Rightarrow>
               (Invoke tx # map Stmt ss @ [Commit tx], Return (Some (Errorf_w ''commit failed'' err)))
           | None \<Rightarrow> (Invoke tx # map Stmt ss @ [Commit tx], Return None)))"

text \<open>The deferred function, run when the body is left either way: if a panic is under way,
  roll back (the result of the rollback is discarded) and panic again with the recovered
  value.\<close>

definition WithTx_deferred ::
  "'tx driver \<Rightarrow> 'tx \<Rightarrow> ('tx, 's) event list \<times> 'p exit \<Rightarrow> ('tx, 's) event list \<times> 'p exit" where
  "WithTx_deferred drv tx b =
     (case recover (snd b) of
        Some p \<Rightarrow> (fst b @ [Rollback tx], Panic p)
      | None \<Rightarrow> b)"

definition WithTx :: "'tx driver \<Rightarrow> ('tx, 's, 'p) txfn \<Rightarrow> ('tx, 's) event list \<times> 'p exit" where
  "WithTx drv fn =
     (case pool_Begin drv of
        Inl err \<Rightarrow> ([Begin], Return (Some (Errorf_w ''begin tx'' err)))
      | Inr tx \<Rightarrow>
          (let r = WithTx_deferred drv tx (WithTx_body drv fn tx)
           in (Begin # fst r, snd r)))"

text \<open>A driver whose calls all succeed, to evaluate \<^verbatim>\<open>WithTx\<close> on.\<close>

definition steady_driver :: "nat driver" where
  "steady_driver = \<lparr>pool_Begin = Inr 7, tx_Rollback = (\<lambda>t. None), tx_Commit = (\<lambda>t. None)\<rparr>"

section \<open>NewPool (pkg/database/connection.go)\<close>

text \<open>\<^verbatim>\<open>Config\<close>: \<^verbatim>\<open>Port\<close> is a Go \<^verbatim>\<open>int\<close>, the two pool sizes are \<^verbatim>\<open>int32\<close>, a
  \<^verbatim>\<open>time.Duration\<close> is an \<^verbatim>\<open>int64\<close> of nanoseconds.\<close>

record Config =
  Host :: string
  Port :: "64 word"
  Database :: string
  User :: string
  Password :: string
  MaxConns :: "32 word"
  MinConns :: "32 word"
  MaxConnLifetime :: "64 word"
  MaxConnIdleTime :: "64 word"

definition DefaultConfig :: Config where
  "DefaultConfig =
     \<lparr>Host = ''localhost'', Port = 5432, Database = ''playground'', User = ''grug'',
      Password = ''grug_like_simple'', MaxConns = 25, MinConns = 5,
      MaxConnLifetime = 3600000000000, MaxConnIdleTime = 30 * 60000000000\<rparr>"

text \<open>The verb \<^verbatim>\<open>%d\<close> on a signed integer.\<close>

definition digit_char :: "nat \<Rightarrow> char" where
  "digit_char d = char_of (48 + d)"

fun show_nat :: "nat \<Rightarrow> string" where
  "show_nat n = (if n < 10 then [digit_char n] else show_nat (n div 10) @ [digit_char (n mod 10)])"

declare show_nat.simps [simp del]

definition show_int :: "int \<Rightarrow> string" where
  "show_int i = (if i < 0 then CHR ''-'' # show_nat (nat (- i)) else show_nat (nat i))"

text \<open>\<^verbatim>\<open>fmt.Sprintf("postgres://%s:%s@%s:%d/%s?sslmode=disable", cfg.User, cfg.Password,
  cfg.Host, cfg.Port, cfg.Database)\<close>\<close>

definition dsn :: "Config \<Rightarrow> string" where
  "dsn cfg =
     ''postgres://'' @ User cfg @ '':'' @ Password cfg @ ''@'' @ Host cfg @ '':'' @
     show_int (sint (Port cfg)) @ ''/'' @ Database cfg @ ''?sslmode=disable''"

text \<open>The fields of \<^verbatim>\<open>pgxpool.Config\<close> that \<^verbatim>\<open>NewPool\<close> sets; the two hooks are absent
  (\<^verbatim>\<open>nil\<close>) in a freshly parsed configuration.\<close>

record 'conn poolconfig =
  pc_ConnString :: string
  pc_MaxConns :: "32 word"
  pc_MinConns :: "32 word"
  pc_MaxConnLifetime :: "64 word"
  pc_MaxConnIdleTime :: "64 word"
  pc_BeforeAcquire :: "('conn \<Rightarrow> bool) option"
  pc_AfterRelease :: "('conn \<Rightarrow> bool) option"

text \<open>The \<^verbatim>\<open>pgxpool\<close> package as \<^verbatim>\<open>NewPool\<close> uses it: what \<^verbatim>\<open>ParseConfig\<close>,
  \<^verbatim>\<open>NewWithConfig\<close> and \<^verbatim>\<open>Ping\<close> answer.\<close>

record ('conn, 'pool) pgxpool =
  ParseConfig :: "string \<Rightarrow> goerror + 'conn poolconfig"
  NewWithConfig :: "'conn poolconfig \<Rightarrow> goerror + 'pool"
  Ping :: "'pool \<Rightarrow> goerror option"

text \<open>\<^verbatim>\<open>type Pool struct { *pgxpool.Pool; config *Config }\<close>\<close>

record 'pool Pool =
  Pool_pgx :: 'pool
  Pool_config :: Config

text \<open>What happens to an underlying pool: it is created, pinged, closed.\<close>

datatype 'pool pool_event = PoolCreated 'pool | PoolPing 'pool | PoolClose 'pool

text \<open>The pools that were created and not closed since.\<close>

fun live_pools :: "'pool pool_event list \<Rightarrow> 'pool list" where
  "live_pools [] = []"
| "live_pools (PoolCreated p # evs) = (if PoolClose p \<in> set evs then [] else [p]) @ live_pools evs"
| "live_pools (e # evs) = live_pools evs"

text \<open>\<^verbatim>\<open>NewPool\<close> returns the pair \<^verbatim>\<open>(*Pool, error)\<close>; \<open>None\<close> is \<^verbatim>\<open>nil\<close> in either
  component.\<close>

definition NewPool ::
  "('conn, 'pool) pgxpool \<Rightarrow> Config \<Rightarrow>
     'pool pool_event list \<times> 'pool Pool option \<times> goerror option" where
  "NewPool px cfg =
     (case ParseConfig px (dsn cfg) of
        Inl err \<Rightarrow> ([], None, Some (Errorf_w ''parse config'' err))
      | Inr parsed \<Rightarrow>
          (let poolConfig = parsed
                 \<lparr>pc_MaxConns := MaxConns cfg, pc_MinConns := MinConns cfg,
                  pc_MaxConnLifetime := MaxConnLifetime cfg,
                  pc_MaxConnIdleTime := MaxConnIdleTime cfg,
                  pc_BeforeAcquire := Some (\<lambda>conn. True),
                  pc_AfterRelease := Some (\<lambda>conn. True)\<rparr>
           in case NewWithConfig px poolConfig of
                Inl err \<Rightarrow> ([], None, Some (Errorf_w ''create pool'' err))
              | Inr pool \<Rightarrow>
                  (case Ping px pool of
                     Some err \<Rightarrow>
                       ([PoolCreated pool, PoolPing pool, PoolClose pool], None,
                        Some (Errorf_w ''ping database'' err))
                   | None \<Rightarrow>
                       ([PoolCreated pool, PoolPing pool],
                        Some \<lparr>Pool_pgx = pool, Pool_config = cfg\<rparr>, None))))"

section \<open>The seeder (its \<^verbatim>\<open>main\<close>, \<^verbatim>\<open>seedSites\<close> and \<^verbatim>\<open>seedAssets\<close>)\<close>

text \<open>The two tables the seeder reads and writes. The rows are generated at random, so
  their type is left open.\<close>

record ('s, 'a) database =
  sites :: "'s list"
  assets :: "'a list"

text \<open>
  Everything the seeder does not decide itself: the \<^verbatim>\<open>pgxpool\<close> package, the failures of
  the queries, the rows the random generators produce, and what the datastore does with
  a batch of \<^verbatim>\<open>INSERT\<close> statements (\<^verbatim>\<open>pool.SendBatch\<close> followed by \<^verbatim>\<open>br.Close\<close>): the new
  contents of the tables and the error, if any. \<open>sw_rand_manufacturer w i\<close> is what
  \<^verbatim>\<open>rand.Intn(len(manufacturers))\<close> draws in round \<open>i\<close> of \<^verbatim>\<open>seedAssets\<close>.
  \<open>sw_query_ids_error\<close> is the error \<^verbatim>\<open>pool.Query\<close> returns at once;
  \<open>sw_rows_delivered\<close> is \<open>Some k\<close> when the query fails while it runs, after \<open>k\<close>
  rows: \<^verbatim>\<open>rows.Next()\<close> is then false and the code never reads \<^verbatim>\<open>rows.Err()\<close>.
\<close>

record ('s, 'a, 'conn, 'pool) seeder_world =
  sw_pgxpool :: "('conn, 'pool) pgxpool"
  sw_count_error :: "goerror option"
  sw_gen_site :: "nat \<Rightarrow> 's"
  sw_rand_manufacturer :: "nat \<Rightarrow> nat"
  sw_gen_asset :: "nat \<Rightarrow> string list \<Rightarrow> string \<Rightarrow> 'a"
  sw_site_id :: "'s \<Rightarrow> string"
  sw_send_sites :: "('s, 'a) database \<Rightarrow> 's list \<Rightarrow> ('s, 'a) database \<times> goerror option"
  sw_send_assets :: "('s, 'a) database \<Rightarrow> 'a list \<Rightarrow> ('s, 'a) database \<times> goerror option"
  sw_query_ids_error :: "goerror option"
  sw_rows_delivered :: "nat option"
  sw_scan_error :: "nat \<Rightarrow> goerror option"
  sw_stats_sites_fails :: bool
  sw_stats_assets_fails :: bool

text \<open>The lines the seeder logs, with the numbers they carry.\<close>

datatype log_line =
  Seeding_sites nat | Seeded_sites nat | Seeding_assets nat | Seeded_assets nat
| Already_contains int | Seeding_complete | Stat_sites int | Stat_assets int
| Stat_average int int

text \<open>What the seeder does, in order: log lines, \<^verbatim>\<open>log.Fatal\<close> (which ends the process
  with status 1 and runs no deferred call), batches of inserts sent to the datastore, and
  what happens to the pool.\<close>

datatype ('s, 'a, 'pool) seed_event =
  Log log_line
| Fatal string goerror
| SendSites "'s list"
| SendAssets "'a list"
| PoolEv "'pool pool_event"

fun is_insert :: "('s, 'a, 'pool) seed_event \<Rightarrow> bool" where
  "is_insert (SendSites b) = True"
| "is_insert (SendAssets b) = True"
| "is_insert e = False"

type_synonym ('s, 'a, 'pool) seed_state = "('s, 'a) database \<times> ('s, 'a, 'pool) seed_event list"

definition emit ::
  "('s, 'a, 'pool) seed_event \<Rightarrow> ('s, 'a, 'pool) seed_state \<Rightarrow> ('s, 'a, 'pool) seed_state" where
  "emit e st = (fst st, snd st @ [e])"

text \<open>\<^verbatim>\<open>br := pool.SendBatch(ctx, batch); err := br.Close()\<close>\<close>

definition send_sites ::
  "('s, 'a, 'conn, 'pool) seeder_world \<Rightarrow> 's list \<Rightarrow> ('s, 'a, 'pool) seed_state \<Rightarrow>
     ('s, 'a, 'pool) seed_state \<times> goerror option" where
  "send_sites w batch st =
     (let r = sw_send_sites w (fst st) batch
      in ((fst r, snd st @ [SendSites batch]), snd r))"

definition send_assets ::
  "('s, 'a, 'conn, 'pool) seeder_world \<Rightarrow> 'a list \<Rightarrow> ('s, 'a, 'pool) seed_state \<Rightarrow>
     ('s, 'a, 'pool) seed_state \<times> goerror option" where
  "send_assets w batch st =
     (let r = sw_send_assets w (fst st) batch
      in ((fst r, snd st @ [SendAssets batch]), snd r))"

text \<open>The loop of \<^verbatim>\<open>seedSites\<close> over \<^verbatim>\<open>i = 0, ..., count - 1\<close>: queue one row, and send the
  batch once it holds 100 statements. An error of a batch leaves the function.\<close>

fun seedSites_loop ::
  "('s, 'a, 'conn, 'pool) seeder_world \<Rightarrow> nat list \<Rightarrow> 's list \<Rightarrow> ('s, 'a, 'pool) seed_state \<Rightarrow>
     ('s, 'a, 'pool) seed_state \<times> (goerror + 's list)" where
  "seedSites_loop w [] batch st = (st, Inr batch)"
| "seedSites_loop w (i # rest) batch st =
     (if 100 \<le> length (batch @ [sw_gen_site w i]) then
        (case snd (send_sites w (batch @ [sw_gen_site w i]) st) of
           Some err \<Rightarrow>
             (fst (send_sites w (batch @ [sw_gen_site w i]) st),
              Inl (Errorf_w ''batch insert sites'' err))
         | None \<Rightarrow>
             seedSites_loop w rest [] (fst (send_sites w (batch @ [sw_gen_site w i]) st)))
      else seedSites_loop w rest (batch @ [sw_gen_site w i]) st)"

definition seedSites ::
  "('s, 'a, 'conn, 'pool) seeder_world \<Rightarrow> nat \<Rightarrow> ('s, 'a, 'pool) seed_state \<Rightarrow>
     ('s, 'a, 'pool) seed_state \<times> goerror option" where
  "seedSites w count st =
     (case seedSites_loop w [0..<count] [] (emit (Log (Seeding_sites count)) st) of
        (st1, Inl err) \<Rightarrow> (st1, Some err)
      | (st1, Inr batch) \<Rightarrow>
          (if 0 < length batch then
             (case send_sites w batch st1 of
                (st2, Some err) \<Rightarrow> (st2, Some (Errorf_w ''final batch insert sites'' err))
              | (st2, None) \<Rightarrow> (emit (Log (Seeded_sites count)) st2, None))
           else (emit (Log (Seeded_sites count)) st1, None)))"

text \<open>The loop of \<^verbatim>\<open>seedAssets\<close> over the rows of \<^verbatim>\<open>SELECT id FROM sites\<close>: the first
  \<^verbatim>\<open>Scan\<close> that fails leaves the function with that error, unwrapped.\<close>

fun scan_site_ids :: "(nat \<Rightarrow> goerror option) \<Rightarrow> nat \<Rightarrow> string list \<Rightarrow> string list \<Rightarrow> goerror + string list" where
  "scan_site_ids scan_error k [] siteIDs = Inr siteIDs"
| "scan_site_ids scan_error k (sid # ids) siteIDs =
     (case scan_error k of
        Some err \<Rightarrow> Inl err
      | None \<Rightarrow> scan_site_ids scan_error (Suc k) ids (siteIDs @ [sid]))"

text \<open>The manufacturer of round \<open>i\<close>, and the row queued in that round.\<close>

definition manufacturers :: "string list" where
  "manufacturers = [''Cisco'', ''Dell'', ''HP'', ''Ubiquiti'', ''APC'', ''Panduit'', ''Honeywell'']"

definition drawn_manufacturer :: "('s, 'a, 'conn, 'pool) seeder_world \<Rightarrow> nat \<Rightarrow> string" where
  "drawn_manufacturer w i = manufacturers ! (sw_rand_manufacturer w i mod length manufacturers)"

definition asset_row :: "('s, 'a, 'conn, 'pool) seeder_world \<Rightarrow> nat \<Rightarrow> string list \<Rightarrow> 'a" where
  "asset_row w i siteIDs = sw_gen_asset w i siteIDs (drawn_manufacturer w i)"

text \<open>How the loop of \<^verbatim>\<open>seedAssets\<close> and the function itself end: normally, with an
  error, or with the panic of \<^verbatim>\<open>manufacturer[:3]\<close>, a slice beyond the end of a name
  shorter than three bytes.\<close>

datatype 'b loop_end = Loop_done 'b | Loop_error goerror | Loop_panic

datatype seed_end = Seed_ok | Seed_error goerror | Seed_panic

text \<open>The serial number is built from \<^verbatim>\<open>manufacturer[:3]\<close> before the row is queued.\<close>

fun seedAssets_loop ::
  "('s, 'a, 'conn, 'pool) seeder_world \<Rightarrow> string list \<Rightarrow> nat list \<Rightarrow> 'a list \<Rightarrow>
     ('s, 'a, 'pool) seed_state \<Rightarrow> ('s, 'a, 'pool) seed_state \<times> 'a list loop_end" where
  "seedAssets_loop w siteIDs [] batch st = (st, Loop_done batch)"
| "seedAssets_loop w siteIDs (i # rest) batch st =
     (if length (drawn_manufacturer w i) < 3 then (st, Loop_panic)
      else if 100 \<le> length (batch @ [asset_row w i siteIDs]) then
        (case snd (send_assets w (batch @ [asset_row w i siteIDs]) st) of
           Some err \<Rightarrow>
             (fst (send_assets w (batch @ [asset_row w i siteIDs]) st),
              Loop_error (Errorf_w ''batch insert assets'' err))
         | None \<Rightarrow>
             seedAssets_loop w siteIDs rest []
               (fst (send_assets w (batch @ [asset_row w i siteIDs]) st)))
      else seedAssets_loop w siteIDs rest (batch @ [asset_row w i siteIDs]) st)"

text \<open>The ids that \<^verbatim>\<open>SELECT id FROM sites\<close> delivers: all of them, or the first \<open>k\<close> when
  the query fails while it runs.\<close>

definition delivered_ids ::
  "('s, 'a, 'conn, 'pool) seeder_world \<Rightarrow> ('s, 'a) database \<Rightarrow> string list" where
  "delivered_ids w db =
     (case sw_rows_delivered w of
        None \<Rightarrow> map (sw_site_id w) (sites db)
      | Some k \<Rightarrow> take k (map (sw_site_id w) (sites db)))"

definition seedAssets ::
  "('s, 'a, 'conn, 'pool) seeder_world \<Rightarrow> nat \<Rightarrow> ('s, 'a, 'pool) seed_state \<Rightarrow>
     ('s, 'a, 'pool) seed_state \<times> seed_end" where
  "seedAssets w count st0 =
     (let st = emit (Log (Seeding_assets count)) st0 in
      case sw_query_ids_error w of
        Some err \<Rightarrow> (st, Seed_error (Errorf_w ''query sites'' err))
      | None \<Rightarrow>
          (case scan_site_ids (sw_scan_error w) 0 (delivered_ids w (fst st)) [] of
             Inl err \<Rightarrow> (st, Seed_error err)
           | Inr siteIDs \<Rightarrow>
               (if length siteIDs = 0 then (st, Seed_error (ErrorString ''no sites found''))
                else
                  (case seedAssets_loop w siteIDs [0..<count] [] st of
                     (st1, Loop_panic) \<Rightarrow> (st1, Seed_panic)
                   | (st1, Loop_error err) \<Rightarrow> (st1, Seed_error err)
                   | (st1, Loop_done batch) \<Rightarrow>
                       (if 0 < length batch then
                          (case send_assets w batch st1 of
                             (st2, Some err) \<Rightarrow>
                               (st2, Seed_error (Errorf_w ''final batch insert assets'' err))
                           | (st2, None) \<Rightarrow> (emit (Log (Seeded_assets count)) st2, Seed_ok))
                        else (emit (Log (Seeded_assets count)) st1, Seed_ok))))))"

text \<open>How \<^verbatim>\<open>main\<close> ends: it returns (and its deferred \<^verbatim>\<open>pool.Close\<close> runs), or
  \<^verbatim>\<open>log.Fatal\<close> exits with status 1, or it dereferences a \<^verbatim>\<open>nil\<close> pool, or the panic of
  \<^verbatim>\<open>seedAssets\<close> unwinds it (the deferred \<^verbatim>\<open>pool.Close\<close> runs then too).\<close>

datatype main_exit = Main_returned | Exit_1 | Nil_dereference | Main_panicked

text \<open>
  \<^verbatim>\<open>main\<close> of the seeder. \<^verbatim>\<open>SELECT COUNT(*) FROM sites\<close> answers the number of rows of
  the table when it does not fail. The final statistics ignore the errors of their two
  queries: a count that could not be read stays 0.
\<close>

definition seeder_main ::
  "('s, 'a, 'conn, 'pool) seeder_world \<Rightarrow> ('s, 'a) database \<Rightarrow>
     ('s, 'a, 'pool) seed_state \<times> main_exit" where
  "seeder_main w db =
     (case NewPool (sw_pgxpool w) DefaultConfig of
        (pevs, p, Some err) \<Rightarrow>
          ((db, map PoolEv pevs @ [Fatal ''Failed to create pool:'' err]), Exit_1)
      | (pevs, None, None) \<Rightarrow> ((db, map PoolEv pevs), Nil_dereference)
      | (pevs, Some pool, None) \<Rightarrow>
          (case sw_count_error w of
             Some err \<Rightarrow>
               ((db, map PoolEv pevs @ [Fatal ''Failed to check existing data:'' err]), Exit_1)
           | None \<Rightarrow>
               (if 0 < int (length (sites db)) then
                  ((db, map PoolEv pevs @
                        [Log (Already_contains (int (length (sites db)))),
                         PoolEv (PoolClose (Pool_pgx pool))]),
                   Main_returned)
                else
                  (case seedSites w 1000 (db, map PoolEv pevs) of
                     (st1, Some err) \<Rightarrow> (emit (Fatal ''Failed to seed sites:'' err) st1, Exit_1)
                   | (st1, None) \<Rightarrow>
                       (case seedAssets w 100000 st1 of
                          (st2, Seed_panic) \<Rightarrow>
                            (emit (PoolEv (PoolClose (Pool_pgx pool))) st2, Main_panicked)
                        | (st2, Seed_error err) \<Rightarrow>
                            (emit (Fatal ''Failed to seed assets:'' err) st2, Exit_1)
                        | (st2, Seed_ok) \<Rightarrow>
                            (let siteCount =
                                   (if sw_stats_sites_fails w then 0
                                    else int (length (sites (fst st2))));
                                 assetCount =
                                   (if sw_stats_assets_fails w then 0
                                    else int (length (assets (fst st2))))
                             in ((fst st2,
                                  snd st2 @
                                    [Log Seeding_complete, Log (Stat_sites siteCount),
                                     Log (Stat_assets assetCount),
                                     Log (Stat_average assetCount siteCount),
                                     PoolEv (PoolClose (Pool_pgx pool))]),
                                 Main_returned)))))))"

text \<open>Two \<^verbatim>\<open>pgxpool\<close> packages to evaluate the functions on: one whose server answers
  the ping, one whose server refuses it; and a world for the seeder in which every call
  succeeds and a batch of inserts appends its rows.\<close>

definition answering_pgxpool :: "(nat, nat) pgxpool" where
  "answering_pgxpool =
     \<lparr>ParseConfig = (\<lambda>s. Inr \<lparr>pc_ConnString = s, pc_MaxConns = 4, pc_MinConns = 0,
                               pc_MaxConnLifetime = 0, pc_MaxConnIdleTime = 0,
                               pc_BeforeAcquire = None, pc_AfterRelease = None\<rparr>),
      NewWithConfig = (\<lambda>c. Inr 1),
      Ping = (\<lambda>p. None)\<rparr>"

definition refusing_pgxpool :: "(nat, nat) pgxpool" where
  "refusing_pgxpool = answering_pgxpool\<lparr>Ping := (\<lambda>p. Some (ErrorString ''connection refused''))\<rparr>"

definition quiet_world :: "(string, string, nat, nat) seeder_world" where
  "quiet_world =
     \<lparr>sw_pgxpool = answering_pgxpool, sw_count_error = None,
      sw_gen_site = (\<lambda>i. ''site''), sw_rand_manufacturer = (\<lambda>i. 0),
      sw_gen_asset = (\<lambda>i ids m. ''asset''),
      sw_site_id = (\<lambda>s. s),
      sw_send_sites = (\<lambda>db b. (db\<lparr>sites := sites db @ b\<rparr>, None)),
      sw_send_assets = (\<lambda>db b. (db\<lparr>assets := assets db @ b\<rparr>, None)),
      sw_query_ids_error = None, sw_rows_delivered = None, sw_scan_error = (\<lambda>k. None),
      sw_stats_sites_fails = False, sw_stats_assets_fails = False\<rparr>"

section \<open>listenNotifyDemo (examples/04_advanced_patterns.go)\<close>

text \<open>
  Two goroutines share the channel \<^verbatim>\<open>notifyChan\<close>. The forwarding goroutine runs
  \<^verbatim>\<open>for i := 0; i < 3; i++\<close>: it waits for a notification on the listening connection,
  returns if that fails, and sends the notification on the channel; after the loop it
  closes the channel. The printing goroutine runs \<^verbatim>\<open>for n := range notifyChan\<close>.

  The state below holds what the two goroutines and the channel hold. The capacity of the
  channel (5 in \<^verbatim>\<open>make(chan *pgconn.Notification, 5)\<close>) and the bound of the loop (3) are
  parameters \<open>cap\<close> and \<open>n\<close> of the steps. A channel of capacity \<open>cap > 0\<close> is a
  first-in-first-out buffer: a send is possible only while the buffer holds fewer than
  \<open>cap\<close> values, and waits otherwise; a receive takes the oldest value, waits while the
  buffer is empty and the channel open, and ends the \<^verbatim>\<open>range\<close> loop once the channel is
  closed and empty.
\<close>

datatype forwarder_status = Forwarding | Forwarder_returned | Forwarder_closed_channel

record 'n listener =
  ln_incoming :: "(goerror + 'n) list"
  ln_i :: nat
  ln_notification :: "'n option"
  ln_forwarder :: forwarder_status
  ln_chan :: "'n list"
  ln_chan_closed :: bool
  ln_received :: "'n list"
  ln_printer_done :: bool

text \<open>\<open>ln_incoming\<close> is what the coming calls of \<^verbatim>\<open>WaitForNotification\<close> will answer, in
  order: the notifications in the order the datastore emitted them on the connection, or
  an error. \<open>ln_notification\<close> is the notification the forwarder has received and not yet
  sent. \<open>ln_received\<close> is what the printing goroutine has taken from the channel, oldest
  first.\<close>

definition listener_start :: "(goerror + 'n) list \<Rightarrow> 'n listener" where
  "listener_start incoming =
     \<lparr>ln_incoming = incoming, ln_i = 0, ln_notification = None, ln_forwarder = Forwarding,
      ln_chan = [], ln_chan_closed = False, ln_received = [], ln_printer_done = False\<rparr>"

text \<open>One step of the forwarding goroutine; \<open>None\<close> when it waits or has ended.\<close>

definition forwarder_step :: "nat \<Rightarrow> nat \<Rightarrow> 'n listener \<Rightarrow> 'n listener option" where
  "forwarder_step cap n s =
     (if ln_forwarder s \<noteq> Forwarding then None
      else case ln_notification s of
        Some x \<Rightarrow>
          (if length (ln_chan s) < cap
           then Some (s\<lparr>ln_chan := ln_chan s @ [x], ln_notification := None, ln_i := ln_i s + 1\<rparr>)
           else None)
      | None \<Rightarrow>
          (if ln_i s < n then
             (case ln_incoming s of
                [] \<Rightarrow> None
              | Inl err # rest \<Rightarrow> Some (s\<lparr>ln_incoming := rest, ln_forwarder := Forwarder_returned\<rparr>)
              | Inr x # rest \<Rightarrow> Some (s\<lparr>ln_incoming := rest, ln_notification := Some x\<rparr>))
           else Some (s\<lparr>ln_chan_closed := True, ln_forwarder := Forwarder_closed_channel\<rparr>)))"

text \<open>One step of the printing goroutine; \<open>None\<close> when it waits or has ended.\<close>

definition printer_step :: "'n listener \<Rightarrow> 'n listener option" where
  "printer_step s =
     (if ln_printer_done s then None
      else case ln_chan s of
        x # rest \<Rightarrow> Some (s\<lparr>ln_chan := rest, ln_received := ln_received s @ [x]\<rparr>)
      | [] \<Rightarrow> (if ln_chan_closed s then Some (s\<lparr>ln_printer_done := True\<rparr>) else None))"

text \<open>The states the two goroutines can reach from \<open>s0\<close>, in any interleaving.\<close>

inductive reaches :: "nat \<Rightarrow> nat \<Rightarrow> 'n listener \<Rightarrow> 'n listener \<Rightarrow> bool"
  for cap n s0 where
  start: "reaches cap n s0 s0"
| forward: "reaches cap n s0 s \<Longrightarrow> forwarder_step cap n s = Some s' \<Longrightarrow> reaches cap n s0 s'"
| print: "reaches cap n s0 s \<Longrightarrow> printer_step s = Some s' \<Longrightarrow> reaches cap n s0 s'"

code_pred reaches .

definition notifications_of :: "(goerror + 'n) list \<Rightarrow> 'n list" where
  "notifications_of rs = concat (map (\<lambda>r. case r of Inl e \<Rightarrow> [] | Inr x \<Rightarrow> [x]) rs)"

text \<open>The notifications that have left the connection, oldest first: those printed, those
  in the channel, and the one in the hands of the forwarder.\<close>

definition in_flight :: "'n listener \<Rightarrow> 'n list" where
  "in_flight s =
     ln_received s @ ln_chan s @ (case ln_notification s of None \<Rightarrow> [] | Some x \<Rightarrow> [x])"

definition listener_inv :: "nat \<Rightarrow> nat \<Rightarrow> 'n list \<Rightarrow> 'n listener \<Rightarrow> bool" where
  "listener_inv cap n ns s =
     (in_flight s @ notifications_of (ln_incoming s) = ns \<and>
      ln_incoming s = map Inr (notifications_of (ln_incoming s)) \<and>
      length (ln_chan s) \<le> cap \<and>
      length (in_flight s) = ln_i s + (case ln_notification s of None \<Rightarrow> 0 | Some x \<Rightarrow> 1) \<and>
      length (in_flight s) \<le> n \<and>
      (ln_notification s \<noteq> None \<longrightarrow> ln_forwarder s = Forwarding) \<and>
      ln_forwarder s \<noteq> Forwarder_returned \<and>
      ln_chan_closed s = (ln_forwarder s = Forwarder_closed_channel) \<and>
      (ln_forwarder s = Forwarder_closed_channel \<longrightarrow> ln_i s = n) \<and>
      (ln_printer_done s \<longrightarrow> ln_chan s = [] \<and> ln_chan_closed s))"

text \<open>A number that every step of either goroutine makes smaller: no schedule runs for
  ever.\<close>

definition listener_measure :: "'n listener \<Rightarrow> nat" where
  "listener_measure s =
     3 * length (ln_incoming s) + (case ln_notification s of None \<Rightarrow> 0 | Some x \<Rightarrow> 2) +
     length (ln_chan s) + (if ln_forwarder s = Forwarding then 1 else 0) +
     (if ln_printer_done s then 0 else 1)"

text \<open>The state in which the first \<open>k\<close> notifications have been received by the
  printing goroutine and nothing is on the way.\<close>

definition drained :: "nat \<Rightarrow> 'n list \<Rightarrow> 'n listener" where
  "drained k ns =
     \<lparr>ln_incoming = map Inr (drop k ns), ln_i = k, ln_notification = None,
      ln_forwarder = Forwarding, ln_chan = [], ln_chan_closed = False,
      ln_received = take k ns, ln_printer_done = False\<rparr>"

text \<open>The demo right after the forwarder has taken the first of five notifications from
  the connection.\<close>

definition holding_listener :: "nat listener" where
  "holding_listener =
     \<lparr>ln_incoming = [Inr 20, Inr 30, Inr 40, Inr 50], ln_i = 0, ln_notification = Some 10,
      ln_forwarder = Forwarding, ln_chan = [], ln_chan_closed = False,
      ln_received = [], ln_printer_done = False\<rparr>"

text \<open>The end of the demo when the datastore emits five notifications: the forwarder has
  left its loop after three and closed the channel, the printing goroutine has left its
  loop, and the last two notifications are still on the connection.\<close>

definition ended_listener :: "nat listener" where
  "ended_listener =
     \<lparr>ln_incoming = [Inr 40, Inr 50], ln_i = 3, ln_notification = None,
      ln_forwarder = Forwarder_closed_channel, ln_chan = [], ln_chan_closed = True,
      ln_received = [10, 20, 30], ln_printer_done = True\<rparr>"

section \<open>batchWithPipeline (examples/03_batch_operations.go)\<close>

text \<open>
  What the connection answers in \<^verbatim>\<open>batchWithPipeline\<close>: \<^verbatim>\<open>pool.Acquire\<close>,
  \<^verbatim>\<open>pipeline.Sync\<close>, \<^verbatim>\<open>results[i].Close()\<close> for each of the 100 queued statements (an
  error, or the command tag with its \<^verbatim>\<open>int64\<close> of rows affected) and \<^verbatim>\<open>pipeline.Close\<close>.
\<close>

record pipeline_world =
  pw_Acquire :: "goerror option"
  pw_Sync :: "goerror option"
  pw_result :: "nat \<Rightarrow> goerror + 64 word"
  pw_Close :: "goerror option"

text \<open>What the function does, in order. It writes out its heading, the errors of
  \<^verbatim>\<open>Acquire\<close> and \<^verbatim>\<open>Sync\<close>, the line with the number of rows updated, and the closing list
  of best practices, which is the same text in every run.\<close>

datatype pipeline_event =
  Queue_query nat | Sync | Close_result nat | Close_pipeline | Release
| Print_heading | Log_error string goerror | Print_updated "64 word" | Print_best_practices

fun is_output :: "pipeline_event \<Rightarrow> bool" where
  "is_output Print_heading = True"
| "is_output (Log_error m e) = True"
| "is_output (Print_updated n) = True"
| "is_output Print_best_practices = True"
| "is_output e = False"

fun is_queue :: "pipeline_event \<Rightarrow> bool" where
  "is_queue (Queue_query i) = True"
| "is_queue e = False"

fun is_close_result :: "pipeline_event \<Rightarrow> bool" where
  "is_close_result (Close_result i) = True"
| "is_close_result e = False"

text \<open>\<^verbatim>\<open>for _, res := range results { tag, err := res.Close(); if err == nil { totalUpdated +=
  tag.RowsAffected() } }\<close>\<close>

fun process_results ::
  "(nat \<Rightarrow> goerror + 64 word) \<Rightarrow> nat list \<Rightarrow> 64 word \<Rightarrow> pipeline_event list \<times> 64 word" where
  "process_results res [] totalUpdated = ([], totalUpdated)"
| "process_results res (i # rest) totalUpdated =
     (case res i of
        Inr rowsAffected \<Rightarrow>
          (Close_result i # fst (process_results res rest (totalUpdated + rowsAffected)),
           snd (process_results res rest (totalUpdated + rowsAffected)))
      | Inl err \<Rightarrow>
          (Close_result i # fst (process_results res rest totalUpdated),
           snd (process_results res rest totalUpdated)))"

text \<open>The deferred \<^verbatim>\<open>conn.Release()\<close> runs on every return once the connection is
  acquired.\<close>

definition batchWithPipeline :: "pipeline_world \<Rightarrow> pipeline_event list" where
  "batchWithPipeline w =
     (case pw_Acquire w of
        Some err \<Rightarrow> [Print_heading, Log_error ''Acquire error'' err]
      | None \<Rightarrow>
          Print_heading # map Queue_query [0..<100] @ [Sync] @
          (case pw_Sync w of
             Some err \<Rightarrow> [Log_error ''Pipeline sync error'' err]
           | None \<Rightarrow>
               fst (process_results (pw_result w) [0..<100] 0) @ [Close_pipeline] @
               (if pw_Close w = None
                then [Print_updated (snd (process_results (pw_result w) [0..<100] 0))]
                else []) @
               [Print_best_practices]) @
          [Release])"

definition rows_of :: "goerror + 64 word \<Rightarrow> 64 word" where
  "rows_of r = (case r of Inl err \<Rightarrow> 0 | Inr n \<Rightarrow> n)"

text \<open>Two runs that differ in the statement that fails: the first statement in one, the
  second in the other; every other statement updates one row.\<close>

definition failing_first :: pipeline_world where
  "failing_first =
     \<lparr>pw_Acquire = None, pw_Sync = None,
      pw_result = (\<lambda>i. if i = 0 then Inl (ErrorString ''deadlock detected'') else Inr 1),
      pw_Close = None\<rparr>"

definition failing_second :: pipeline_world where
  "failing_second =
     \<lparr>pw_Acquire = None, pw_Sync = None,
      pw_result = (\<lambda>i. if i = 1 then Inl (ErrorString ''deadlock detected'') else Inr 1),
      pw_Close = None\<rparr>"

section \<open>The pgx.Batch of batchInserts (examples/03_batch_operations.go)\<close>

text \<open>
  The second method of \<^verbatim>\<open>batchInserts\<close> queues 100 inserts on a \<^verbatim>\<open>pgx.Batch\<close>, sends it,
  and calls \<^verbatim>\<open>br.Exec()\<close> once for each queued statement: \<^verbatim>\<open>for i := 0; i < batch.Len(); i++
  { _, err := br.Exec(); if err == nil { insertedCount++ } }\<close>. The argument \<open>exec\<close> is
  what the successive calls of \<^verbatim>\<open>br.Exec\<close> answer.
\<close>

datatype batch_event = Batch_queue nat | Batch_send | Batch_exec nat | Print_inserted nat

fun count_inserted :: "(nat \<Rightarrow> goerror option) \<Rightarrow> nat list \<Rightarrow> nat \<Rightarrow> batch_event list \<times> nat" where
  "count_inserted exec [] insertedCount = ([], insertedCount)"
| "count_inserted exec (i # rest) insertedCount =
     (case exec i of
        None \<Rightarrow>
          (Batch_exec i # fst (count_inserted exec rest (insertedCount + 1)),
           snd (count_inserted exec rest (insertedCount + 1)))
      | Some err \<Rightarrow>
          (Batch_exec i # fst (count_inserted exec rest insertedCount),
           snd (count_inserted exec rest insertedCount)))"

definition batchInserts_batch :: "(nat \<Rightarrow> goerror option) \<Rightarrow> batch_event list" where
  "batchInserts_batch exec =
     map Batch_queue [0..<100] @ [Batch_send] @
     fst (count_inserted exec [0..<100] 0) @
     [Print_inserted (snd (count_inserted exec [0..<100] 0))]"

section \<open>Choice of the write strategy\<close>






section \<open>The staging table of batchUpdates (examples/03_batch_operations.go)\<close>

text \<open>The statements the third method of \<^verbatim>\<open>batchUpdates\<close> issues on its transaction, and
  the statement that would remove a table by hand.\<close>

datatype sql =
  Create_temp_table_on_commit_drop string
| Insert_into string "string list"
| Update_sites_from string
| Drop_table string

text \<open>\<^verbatim>\<open>tx.Exec\<close> of a statement, with whether it succeeded, and \<^verbatim>\<open>tx.SendBatch\<close>.\<close>

datatype tx_statement = Exec sql bool | Send_batch "sql list"

fun is_drop_table :: "sql \<Rightarrow> bool" where
  "is_drop_table (Drop_table t) = True"
| "is_drop_table q = False"

fun is_drop :: "('tx, tx_statement) event \<Rightarrow> bool" where
  "is_drop (Stmt (Exec q ok)) = is_drop_table q"
| "is_drop (Stmt (Send_batch b)) = (filter is_drop_table b \<noteq> [])"
| "is_drop e = False"

text \<open>What the transaction answers to the closure: the error of the \<^verbatim>\<open>CREATE\<close>, if any, and
  the error or the rows affected of the final \<^verbatim>\<open>UPDATE\<close>. The result of closing the batch
  of inserts is discarded by the code.\<close>

record staging_world =
  stw_create :: "goerror option"
  stw_update :: "goerror + 64 word"

text \<open>\<^verbatim>\<open>batch.Queue("INSERT INTO batch_updates VALUES ($1, $2)", fmt.Sprintf("Test Site %d",
  i), fmt.Sprintf(`{"batch_process": true, "update_num": %d}`, i))\<close>\<close>

definition insert_batch_updates :: "nat \<Rightarrow> sql" where
  "insert_batch_updates i =
     Insert_into ''batch_updates''
       [''Test Site '' @ show_int (int i),
        ''{\"batch_process\": true, \"update_num\": '' @ show_int (int i) @ ''}'']"

text \<open>The closure passed to \<^verbatim>\<open>WithTx\<close>: create the temporary table and return the error if
  that fails; send the 30 inserts; run the update and return its error.\<close>

definition batchUpdates_fn :: "staging_world \<Rightarrow> ('tx, tx_statement, 'p) txfn" where
  "batchUpdates_fn w tx =
     (case stw_create w of
        Some err \<Rightarrow>
          ([Exec (Create_temp_table_on_commit_drop ''batch_updates'') False], Returns (Some err))
      | None \<Rightarrow>
          ([Exec (Create_temp_table_on_commit_drop ''batch_updates'') True,
            Send_batch (map insert_batch_updates [0..<30]),
            Exec (Update_sites_from ''batch_updates'')
              (case stw_update w of Inl err \<Rightarrow> False | Inr n \<Rightarrow> True)],
           Returns (case stw_update w of Inl err \<Rightarrow> Some err | Inr n \<Rightarrow> None)))"

text \<open>
  Modelled from the spec: the datastore's side of a staging table. The relational engine
  is an external collaborator; none of its code is in the repository. The spec says of
  the staging table that it is "a connection-scoped, transaction-scoped table", "created
  at transaction start, destroyed automatically at transaction end", "dropped
  automatically when the transaction ends, success or failure". Accordingly a session
  holds the temporary tables that exist and, among them, those created as
  transaction-scoped in the open transaction; the end of the transaction, by
  \<^verbatim>\<open>COMMIT\<close> or by \<^verbatim>\<open>ROLLBACK\<close> and whether or not the call reports an error, removes the
  latter. A \<^verbatim>\<open>CREATE\<close> or \<^verbatim>\<open>DROP\<close> that fails changes nothing.
\<close>

record session =
  ss_tables :: "string list"
  ss_staged :: "string list"

fun datastore :: "session \<Rightarrow> ('tx, tx_statement) event \<Rightarrow> session" where
  "datastore s Begin = s\<lparr>ss_staged := []\<rparr>"
| "datastore s (Stmt (Exec (Create_temp_table_on_commit_drop t) True)) =
     s\<lparr>ss_tables := t # ss_tables s, ss_staged := t # ss_staged s\<rparr>"
| "datastore s (Stmt (Exec (Drop_table t) True)) = s\<lparr>ss_tables := removeAll t (ss_tables s)\<rparr>"
| "datastore s (Commit tx) =
     s\<lparr>ss_tables := filter (\<lambda>t. t \<notin> set (ss_staged s)) (ss_tables s), ss_staged := []\<rparr>"
| "datastore s (Rollback tx) =
     s\<lparr>ss_tables := filter (\<lambda>t. t \<notin> set (ss_staged s)) (ss_tables s), ss_staged := []\<rparr>"
| "datastore s e = s"

text \<open>Two worlds to evaluate the closure on: in one the final update succeeds, in the
  other it fails.\<close>

definition update_fails :: staging_world where
  "update_fails = \<lparr>stw_create = None, stw_update = Inl (ErrorString ''syntax error'')\<rparr>"

definition update_succeeds :: staging_world where
  "update_succeeds = \<lparr>stw_create = None, stw_update = Inr 30\<rparr>"

section \<open>Properties of WithTx\<close>

lemma errors_Is_refl: "errors_Is e e"
  by (cases e) (simp_all add: errors_Is_def)

lemma errors_Is_wrap: "errors_Is (WrapError s e) e"
  by (cases e) (simp_all add: errors_Is_def)

text \<open>When \<^verbatim>\<open>pool.Begin\<close> fails, the function is never invoked and the error of
  \<^verbatim>\<open>Begin\<close> comes back wrapped.\<close>

lemma WithTx_begin_fails:
  "pool_Begin drv = Inl err \<Longrightarrow>
     WithTx drv fn = ([Begin], Return (Some (WrapError (''begin tx: '' @ Error err) err)))"
  by (simp add: WithTx_def Errorf_w_def)

text \<open>
  Claim C1. Once \<^verbatim>\<open>pool.Begin\<close> has given a transaction handle, \<^verbatim>\<open>WithTx\<close> invokes the
  function with that handle, and after the statements of the function it ends the
  transaction exactly once: with \<^verbatim>\<open>Commit\<close> when the function returned \<^verbatim>\<open>nil\<close>, with
  \<^verbatim>\<open>Rollback\<close> when it returned an error or panicked. \<^verbatim>\<open>WithTx\<close> panics exactly when the
  function does, and with the same value.
\<close>

theorem WithTx_ends_transaction:
  assumes "pool_Begin drv = Inr tx"
  shows "fst (WithTx drv fn) =
           Begin # Invoke tx # map Stmt (fst (fn tx)) @
             [if snd (fn tx) = Returns None then Commit tx else Rollback tx]
         \<and> (\<forall>p. (snd (WithTx drv fn) = Panic p) = (snd (fn tx) = Panics p))"
proof (cases "fn tx")
  case (Pair ss out)
  show ?thesis
  proof (cases out)
    case (Returns r)
    with Pair assms show ?thesis
      by (cases r; cases "tx_Rollback drv tx"; cases "tx_Commit drv tx")
         (simp_all add: WithTx_def WithTx_body_def WithTx_deferred_def)
  next
    case (Panics p)
    with Pair assms show ?thesis
      by (auto simp add: WithTx_def WithTx_body_def WithTx_deferred_def)
  qed
qed

theorem WithTx_ends_transaction_witness:
  "WithTx steady_driver (\<lambda>t. ([''INSERT''], Returns None :: nat outcome)) =
     ([Begin, Invoke 7, Stmt ''INSERT'', Commit 7], Return None)
   \<and> WithTx steady_driver
         (\<lambda>t. ([''INSERT''], Returns (Some (ErrorString ''duplicate key'')) :: nat outcome)) =
       ([Begin, Invoke 7, Stmt ''INSERT'', Rollback 7],
        Return (Some (ErrorString ''duplicate key'')))
   \<and> WithTx steady_driver (\<lambda>t. ([''INSERT''], Panics (42::nat))) =
       ([Begin, Invoke 7, Stmt ''INSERT'', Rollback 7], Panic 42)"
  using WithTx_ends_transaction
      [of steady_driver 7 "\<lambda>t. ([''INSERT''], Returns None :: nat outcome)"]
    WithTx_ends_transaction
      [of steady_driver 7
          "\<lambda>t. ([''INSERT''], Returns (Some (ErrorString ''duplicate key'')) :: nat outcome)"]
    WithTx_ends_transaction
      [of steady_driver 7 "\<lambda>t. ([''INSERT''], Panics (42::nat))"]
  by (simp add: steady_driver_def WithTx_def WithTx_body_def WithTx_deferred_def)

text \<open>
  Claim C2. When the function returns an error \<open>e\<close>, \<^verbatim>\<open>WithTx\<close> returns an error whose
  chain of causes contains \<open>e\<close>: \<open>e\<close> itself when the rollback succeeds; when the
  rollback fails too, an error that unwraps to \<open>e\<close> and whose message carries the message
  of the rollback error next to the message of \<open>e\<close>.
\<close>

theorem WithTx_preserves_original_error:
  assumes "pool_Begin drv = Inr tx" and "snd (fn tx) = Returns (Some e)"
  shows "\<exists>r. snd (WithTx drv fn) = Return (Some r) \<and> errors_Is r e \<and>
           (case tx_Rollback drv tx of
              None \<Rightarrow> r = e
            | Some rbErr \<Rightarrow>
                Unwrap r = Some e \<and>
                Error r = ''rollback failed: '' @ Error rbErr @ '', original error: '' @ Error e)"
proof (cases "fn tx")
  case (Pair ss out)
  with assms have out: "out = Returns (Some e)" by simp
  show ?thesis
  proof (cases "tx_Rollback drv tx")
    case None
    with Pair out assms show ?thesis
      by (simp add: WithTx_def WithTx_body_def WithTx_deferred_def errors_Is_refl)
  next
    case (Some rbErr)
    with Pair out assms show ?thesis
      by (simp add: WithTx_def WithTx_body_def WithTx_deferred_def Errorf_rollback_def
          errors_Is_wrap)
  qed
qed

theorem WithTx_preserves_original_error_witness:
  "\<exists>r. snd (WithTx \<lparr>pool_Begin = Inr (7::nat),
                     tx_Rollback = (\<lambda>t. Some (ErrorString ''conn closed'')),
                     tx_Commit = (\<lambda>t. None)\<rparr>
              (\<lambda>t. ([''INSERT''], Returns (Some (ErrorString ''duplicate key'')) :: nat outcome)))
          = Return (Some r)
     \<and> errors_Is r (ErrorString ''duplicate key'')
     \<and> Unwrap r = Some (ErrorString ''duplicate key'')
     \<and> Error r = ''rollback failed: conn closed, original error: duplicate key''"
  using WithTx_preserves_original_error
    [of "\<lparr>pool_Begin = Inr (7::nat), tx_Rollback = (\<lambda>t. Some (ErrorString ''conn closed'')),
          tx_Commit = (\<lambda>t. None)\<rparr>" 7
        "\<lambda>t. ([''INSERT''], Returns (Some (ErrorString ''duplicate key'')) :: nat outcome)"
        "ErrorString ''duplicate key''"]
  by simp

section \<open>Properties of NewPool\<close>

lemma NewPool_cases:
  "(\<exists>err. NewPool px cfg = ([], None, Some err)) \<or>
   (\<exists>pool err. NewPool px cfg = ([PoolCreated pool, PoolPing pool, PoolClose pool], None, Some err)) \<or>
   (\<exists>pool. NewPool px cfg =
      ([PoolCreated pool, PoolPing pool], Some \<lparr>Pool_pgx = pool, Pool_config = cfg\<rparr>, None))"
  by (simp add: NewPool_def Let_def split: sum.splits option.splits)

text \<open>
  Claim C10. \<^verbatim>\<open>NewPool\<close> returns either a pool and no error, or an error and no pool. It
  returns a pool only when the ping of that pool succeeded, and that pool is then the only
  live one. When it returns an error no pool is left live: either none was created, or
  the ping of the created pool failed and the pool was closed after it.
\<close>

theorem NewPool_handle_or_error:
  "(case fst (snd (NewPool px cfg)) of
      Some P \<Rightarrow>
        snd (snd (NewPool px cfg)) = None \<and> Ping px (Pool_pgx P) = None \<and>
        fst (NewPool px cfg) = [PoolCreated (Pool_pgx P), PoolPing (Pool_pgx P)] \<and>
        live_pools (fst (NewPool px cfg)) = [Pool_pgx P]
    | None \<Rightarrow>
        snd (snd (NewPool px cfg)) \<noteq> None \<and> live_pools (fst (NewPool px cfg)) = [] \<and>
        (fst (NewPool px cfg) = [] \<or>
         (\<exists>p. Ping px p \<noteq> None \<and> fst (NewPool px cfg) = [PoolCreated p, PoolPing p, PoolClose p])))"
  by (auto simp add: NewPool_def Let_def split: sum.splits option.splits)

theorem NewPool_handle_or_error_witness:
  "NewPool refusing_pgxpool DefaultConfig =
     ([PoolCreated 1, PoolPing 1, PoolClose 1], None,
      Some (WrapError ''ping database: connection refused'' (ErrorString ''connection refused'')))
   \<and> live_pools (fst (NewPool refusing_pgxpool DefaultConfig)) = []
   \<and> fst (snd (NewPool answering_pgxpool DefaultConfig)) =
       Some \<lparr>Pool_pgx = 1, Pool_config = DefaultConfig\<rparr>
   \<and> snd (snd (NewPool answering_pgxpool DefaultConfig)) = None
   \<and> live_pools (fst (NewPool answering_pgxpool DefaultConfig)) = [1]"
  using NewPool_handle_or_error [of refusing_pgxpool DefaultConfig]
    NewPool_handle_or_error [of answering_pgxpool DefaultConfig]
  by (simp add: NewPool_def refusing_pgxpool_def answering_pgxpool_def Errorf_w_def)

text \<open>The two pool sizes and the two durations of the \<^verbatim>\<open>Config\<close> reach \<^verbatim>\<open>pgxpool\<close>
  unchanged: this is all \<^verbatim>\<open>NewPool\<close> does about the ceiling of the pool.\<close>

lemma NewPool_passes_pool_sizes:
  assumes "fst (snd (NewPool px cfg)) = Some P"
  shows "\<exists>parsed. ParseConfig px (dsn cfg) = Inr parsed \<and>
           NewWithConfig px
             (parsed\<lparr>pc_MaxConns := MaxConns cfg, pc_MinConns := MinConns cfg,
                     pc_MaxConnLifetime := MaxConnLifetime cfg,
                     pc_MaxConnIdleTime := MaxConnIdleTime cfg,
                     pc_BeforeAcquire := Some (\<lambda>conn. True),
                     pc_AfterRelease := Some (\<lambda>conn. True)\<rparr>) = Inr (Pool_pgx P)"
  using assms
  by (auto simp add: NewPool_def Let_def split: sum.splits option.splits)

section \<open>Properties of the seeder\<close>

text \<open>
  Claim C9. When the table of sites holds a row at the start, the seeder leaves both tables
  as they are and sends no batch of inserts, whatever the pool and the queries do. When
  the pool is created and the count is read, it logs the number of sites, closes the pool
  and returns; otherwise it ends without returning normally.
\<close>

theorem seeder_skips_seeded_database:
  assumes "sites db \<noteq> []"
  shows "fst (fst (seeder_main w db)) = db
       \<and> filter is_insert (snd (fst (seeder_main w db))) = []
       \<and> (case NewPool (sw_pgxpool w) DefaultConfig of
            (pevs, Some pool, None) \<Rightarrow>
              (case sw_count_error w of
                 None \<Rightarrow>
                   seeder_main w db =
                     ((db, map PoolEv pevs @
                           [Log (Already_contains (int (length (sites db)))),
                            PoolEv (PoolClose (Pool_pgx pool))]),
                      Main_returned)
               | Some err \<Rightarrow> snd (seeder_main w db) = Exit_1)
          | _ \<Rightarrow> snd (seeder_main w db) \<noteq> Main_returned)"
proof -
  from assms have pos: "0 < length (sites db)" by simp
  from NewPool_cases [of "sw_pgxpool w" DefaultConfig] show ?thesis
  proof (elim disjE exE)
    fix err assume "NewPool (sw_pgxpool w) DefaultConfig = ([], None, Some err)"
    then show ?thesis by (simp add: seeder_main_def)
  next
    fix pool err
    assume "NewPool (sw_pgxpool w) DefaultConfig =
              ([PoolCreated pool, PoolPing pool, PoolClose pool], None, Some err)"
    then show ?thesis by (simp add: seeder_main_def)
  next
    fix pool
    assume "NewPool (sw_pgxpool w) DefaultConfig =
              ([PoolCreated pool, PoolPing pool],
               Some \<lparr>Pool_pgx = pool, Pool_config = DefaultConfig\<rparr>, None)"
    with pos show ?thesis
      by (cases "sw_count_error w") (simp_all add: seeder_main_def)
  qed
qed

theorem seeder_skips_seeded_database_witness:
  "sites \<lparr>sites = [''depot''], assets = []\<rparr> \<noteq> []
   \<and> seeder_main quiet_world \<lparr>sites = [''depot''], assets = []\<rparr> =
       ((\<lparr>sites = [''depot''], assets = []\<rparr>,
         [PoolEv (PoolCreated 1), PoolEv (PoolPing 1), Log (Already_contains 1),
          PoolEv (PoolClose 1)]),
        Main_returned)
   \<and> filter is_insert (snd (fst (seeder_main quiet_world \<lparr>sites = [''depot''], assets = []\<rparr>))) = []"
  using seeder_skips_seeded_database [of "\<lparr>sites = [''depot''], assets = []\<rparr>" quiet_world]
  by (simp add: NewPool_def quiet_world_def answering_pgxpool_def)

text \<open>The events of a run only grow, and a loop over at least 100 rows sends a batch.\<close>

lemma send_sites_events [simp]:
  "snd (fst (send_sites w b st)) = snd st @ [SendSites b]"
  by (simp add: send_sites_def Let_def)

lemma send_assets_events [simp]:
  "snd (fst (send_assets w b st)) = snd st @ [SendAssets b]"
  by (simp add: send_assets_def Let_def)

lemma emit_events [simp]: "snd (emit e st) = snd st @ [e]"
  by (simp add: emit_def)

lemma seedSites_loop_keeps:
  "set (snd st) \<subseteq> set (snd (fst (seedSites_loop w js batch st)))"
proof (induction js arbitrary: batch st)
  case Nil
  then show ?case by simp
next
  case (Cons i rest)
  show ?case
  proof (cases "100 \<le> length (batch @ [sw_gen_site w i])")
    case False
    with Cons.IH [of st "batch @ [sw_gen_site w i]"] show ?thesis by simp
  next
    case True
    let ?st' = "fst (send_sites w (batch @ [sw_gen_site w i]) st)"
    have "set (snd st) \<subseteq> set (snd ?st')" by auto
    with True Cons.IH [of ?st' "[]"] show ?thesis
      by (cases "snd (send_sites w (batch @ [sw_gen_site w i]) st)") auto
  qed
qed

lemma seedSites_loop_sends:
  "length batch < 100 \<Longrightarrow> 100 \<le> length batch + length js \<Longrightarrow>
     \<exists>b. SendSites b \<in> set (snd (fst (seedSites_loop w js batch st)))"
proof (induction js arbitrary: batch st)
  case Nil
  then show ?case by simp
next
  case (Cons i rest)
  show ?case
  proof (cases "100 \<le> length (batch @ [sw_gen_site w i])")
    case False
    with Cons.prems Cons.IH [of "batch @ [sw_gen_site w i]" st] show ?thesis by simp
  next
    case True
    let ?b = "batch @ [sw_gen_site w i]"
    let ?st' = "fst (send_sites w ?b st)"
    have sent: "SendSites ?b \<in> set (snd ?st')" by simp
    show ?thesis
    proof (cases "snd (send_sites w ?b st)")
      case (Some err)
      with True sent show ?thesis by auto
    next
      case None
      with True sent seedSites_loop_keeps [of ?st' w rest "[]"] show ?thesis
        by auto
    qed
  qed
qed

lemma seedSites_sends:
  "100 \<le> count \<Longrightarrow> \<exists>b. SendSites b \<in> set (snd (fst (seedSites w count st)))"
proof -
  assume c: "100 \<le> count"
  let ?st0 = "emit (Log (Seeding_sites count)) st"
  let ?r = "seedSites_loop w [0..<count] [] ?st0"
  from c seedSites_loop_sends [of "[]" "[0..<count]" w ?st0]
  obtain b where b: "SendSites b \<in> set (snd (fst ?r))" by auto
  obtain st1 x where r: "?r = (st1, x)" by (cases ?r)
  with b have b1: "SendSites b \<in> set (snd st1)" by simp
  show ?thesis
  proof (cases x)
    case (Inl err)
    with r b1 show ?thesis by (auto simp add: seedSites_def)
  next
    case (Inr batch)
    show ?thesis
    proof (cases "0 < length batch")
      case False
      with r Inr b1 show ?thesis by (auto simp add: seedSites_def)
    next
      case True
      obtain st2 y where s: "send_sites w batch st1 = (st2, y)" by (cases "send_sites w batch st1")
      then have "snd st2 = snd st1 @ [SendSites batch]"
        using send_sites_events [of w batch st1] by simp
      with r Inr True s b1 show ?thesis
        by (cases y) (auto simp add: seedSites_def)
    qed
  qed
qed


lemma seedAssets_loop_keeps:
  "set (snd st) \<subseteq> set (snd (fst (seedAssets_loop w ids js batch st)))"
proof (induction js arbitrary: batch st)
  case Nil
  then show ?case by simp
next
  case (Cons i rest)
  show ?case
  proof (cases "length (drawn_manufacturer w i) < 3")
    case True
    then show ?thesis by simp
  next
    case long: False
    show ?thesis
    proof (cases "100 \<le> length (batch @ [asset_row w i ids])")
      case False
      with long Cons.IH [of st "batch @ [asset_row w i ids]"] show ?thesis by simp
    next
      case True
      let ?st' = "fst (send_assets w (batch @ [asset_row w i ids]) st)"
      have "set (snd st) \<subseteq> set (snd ?st')" by auto
      with long True Cons.IH [of ?st' "[]"] show ?thesis
        by (cases "snd (send_assets w (batch @ [asset_row w i ids]) st)") auto
    qed
  qed
qed

lemma seedAssets_keeps:
  "set (snd st) \<subseteq> set (snd (fst (seedAssets w count st)))"
proof -
  let ?st = "emit (Log (Seeding_assets count)) st"
  have base: "set (snd st) \<subseteq> set (snd ?st)" by auto
  show ?thesis
  proof (cases "sw_query_ids_error w")
    case (Some err)
    with base show ?thesis by (simp add: seedAssets_def Let_def)
  next
    case None
    show ?thesis
    proof (cases "scan_site_ids (sw_scan_error w) 0 (delivered_ids w (fst ?st)) []")
      case (Inl err)
      with None base show ?thesis by (simp add: seedAssets_def Let_def)
    next
      case (Inr siteIDs)
      note ids = this
      show ?thesis
      proof (cases "length siteIDs = 0")
        case True
        with None ids base show ?thesis by (simp add: seedAssets_def Let_def)
      next
        case False
        let ?r = "seedAssets_loop w siteIDs [0..<count] [] ?st"
        obtain st1 x where r: "?r = (st1, x)" by (cases ?r)
        from seedAssets_loop_keeps [of ?st w siteIDs "[0..<count]" "[]"] r base
        have k1: "set (snd st) \<subseteq> set (snd st1)" by auto
        show ?thesis
        proof (cases x)
          case Loop_panic
          with None ids False r k1 show ?thesis by (simp add: seedAssets_def Let_def)
        next
          case (Loop_error err)
          with None ids False r k1 show ?thesis by (simp add: seedAssets_def Let_def)
        next
          case (Loop_done batch)
          note x = this
          show ?thesis
          proof (cases "0 < length batch")
            case nb: False
            with None ids False r x k1 show ?thesis
              by (auto simp add: seedAssets_def Let_def)
          next
            case True
            obtain st2 y where s: "send_assets w batch st1 = (st2, y)"
              by (cases "send_assets w batch st1")
            then have "snd st2 = snd st1 @ [SendAssets batch]"
              using send_assets_events [of w batch st1] by simp
            with None ids False r x k1 True s show ?thesis
              by (cases y) (auto simp add: seedAssets_def Let_def)
          qed
        qed
      qed
    qed
  qed
qed

text \<open>The other direction: with no site in the table, a pool and a count that can be read,
  the seeder does send inserts.\<close>

lemma seeder_seeds_empty_database:
  assumes "sites db = []"
    and "NewPool (sw_pgxpool w) DefaultConfig = (pevs, Some pool, None)"
    and "sw_count_error w = None"
  shows "filter is_insert (snd (fst (seeder_main w db))) \<noteq> []"
proof -
  let ?st0 = "(db, map PoolEv pevs)"
  obtain st1 x where r1: "seedSites w 1000 ?st0 = (st1, x)" by (cases "seedSites w 1000 ?st0")
  from seedSites_sends [of 1000 w ?st0] r1
  obtain b where b: "SendSites b \<in> set (snd st1)" by auto
  have "\<exists>e \<in> set (snd (fst (seeder_main w db))). is_insert e"
  proof (cases x)
    case (Some err)
    with assms r1 b show ?thesis
      by (auto simp add: seeder_main_def intro: bexI [of _ "SendSites b"])
  next
    case None
    obtain st2 y where r2: "seedAssets w 100000 st1 = (st2, y)"
      by (cases "seedAssets w 100000 st1")
    with seedAssets_keeps [of st1 w 100000] b have b2: "SendSites b \<in> set (snd st2)" by auto
    with assms r1 None r2 show ?thesis
      by (cases y) (auto simp add: seeder_main_def Let_def intro: bexI [of _ "SendSites b"])
  qed
  then show ?thesis by (auto simp add: filter_empty_conv)
qed

section \<open>Properties of the notification channel\<close>

lemma notifications_of_map_Inr [simp]: "notifications_of (map Inr ns) = ns"
  by (induction ns) (simp_all add: notifications_of_def)

lemma notifications_of_Cons [simp]:
  "notifications_of (Inr x # rs) = x # notifications_of rs"
  "notifications_of (Inl e # rs) = notifications_of rs"
  by (simp_all add: notifications_of_def)

lemma inv_start: "listener_inv cap n ns (listener_start (map Inr ns))"
  unfolding listener_inv_def listener_start_def in_flight_def
  by simp

lemma inv_forward:
  assumes "listener_inv cap n ns s" and "forwarder_step cap n s = Some s'"
  shows "listener_inv cap n ns s'"
proof (cases "ln_notification s")
  case (Some x)
  with assms show ?thesis
    by (auto simp add: listener_inv_def forwarder_step_def in_flight_def split: if_splits)
next
  case None
  show ?thesis
  proof (cases "ln_i s < n")
    case False
    with None assms show ?thesis
      by (auto simp add: listener_inv_def forwarder_step_def in_flight_def split: if_splits)
  next
    case True
    from assms(2) None True obtain r rest where r: "ln_incoming s = r # rest"
      by (cases "ln_incoming s") (auto simp add: forwarder_step_def split: if_splits)
    from assms(1) have "ln_incoming s = map Inr (notifications_of (ln_incoming s))"
      by (simp add: listener_inv_def)
    with r obtain x where x: "r = Inr x"
      by (cases r) (auto simp add: notifications_of_def)
    with assms None True r show ?thesis
      by (auto simp add: listener_inv_def forwarder_step_def in_flight_def split: if_splits)
  qed
qed

lemma inv_print:
  assumes "listener_inv cap n ns s" and "printer_step s = Some s'"
  shows "listener_inv cap n ns s'"
  using assms
  by (cases "ln_chan s")
     (auto simp add: listener_inv_def printer_step_def in_flight_def split: if_splits)

lemma reaches_inv:
  assumes "reaches cap n (listener_start (map Inr ns)) s"
  shows "listener_inv cap n ns s"
  using assms
  by (induction rule: reaches.induct) (auto intro: inv_start inv_forward inv_print)

text \<open>Every step of either goroutine lowers the measure.\<close>

lemma forwarder_step_measure:
  "forwarder_step cap n s = Some s' \<Longrightarrow> listener_measure s' < listener_measure s"
  by (auto simp add: forwarder_step_def listener_measure_def
      split: if_splits option.splits list.splits sum.splits)

lemma printer_step_measure:
  "printer_step s = Some s' \<Longrightarrow> listener_measure s' < listener_measure s"
  by (auto simp add: printer_step_def listener_measure_def split: if_splits list.splits)

text \<open>With a bound not above the capacity a send never waits.\<close>

lemma inv_send_enabled:
  assumes "listener_inv cap n ns s" and "n \<le> cap" and "ln_notification s \<noteq> None"
  shows "forwarder_step cap n s \<noteq> None"
  using assms
  by (auto simp add: listener_inv_def forwarder_step_def in_flight_def)

text \<open>When neither goroutine can step, the first \<open>n\<close> notifications have been
  received.\<close>

lemma inv_ended:
  assumes inv: "listener_inv cap n ns s" and le: "n \<le> cap"
    and f: "forwarder_step cap n s = None" and p: "printer_step s = None"
  shows "ln_received s = take n ns"
proof -
  from inv le f have hand: "ln_notification s = None"
    using inv_send_enabled [of cap n ns s] by (cases "ln_notification s") auto
  from p inv have chan: "ln_chan s = []"
    by (cases "ln_chan s") (auto simp add: printer_step_def listener_inv_def split: if_splits)
  from inv hand chan have all: "ln_received s @ notifications_of (ln_incoming s) = ns"
    and len: "length (ln_received s) = ln_i s" and bound: "ln_i s \<le> n"
    by (simp_all add: listener_inv_def in_flight_def)
  show ?thesis
  proof (cases "ln_forwarder s = Forwarding")
    case False
    with inv have "ln_i s = n" by (cases "ln_forwarder s") (auto simp add: listener_inv_def)
    with all len show ?thesis by (metis append_eq_conv_conj)
  next
    case True
    with f hand have "ln_i s < n \<and> ln_incoming s = []"
      by (auto simp add: forwarder_step_def split: if_splits list.splits sum.splits)
    with all len show ?thesis by (simp add: notifications_of_def)
  qed
qed

text \<open>The state with the first \<open>k\<close> notifications received can be reached, one
  notification after the other.\<close>

lemma drained_0: "drained 0 ns = listener_start (map Inr ns)"
  by (simp add: drained_def listener_start_def)

lemma drained_step:
  assumes "0 < cap" and "k < n" and "k < length ns"
  shows "\<exists>s1 s2. forwarder_step cap n (drained k ns) = Some s1 \<and>
                 forwarder_step cap n s1 = Some s2 \<and>
                 printer_step s2 = Some (drained (Suc k) ns)"
proof -
  from assms(3) have d: "drop k ns = ns ! k # drop (Suc k) ns"
    by (simp add: Cons_nth_drop_Suc)
  from assms(3) have t: "take (Suc k) ns = take k ns @ [ns ! k]"
    by (simp add: take_Suc_conv_app_nth)
  let ?s1 = "(drained k ns)\<lparr>ln_incoming := map Inr (drop (Suc k) ns),
                              ln_notification := Some (ns ! k)\<rparr>"
  let ?s2 = "?s1\<lparr>ln_chan := [ns ! k], ln_notification := None, ln_i := Suc k\<rparr>"
  from assms d have 1: "forwarder_step cap n (drained k ns) = Some ?s1"
    by (simp add: forwarder_step_def drained_def)
  from assms have 2: "forwarder_step cap n ?s1 = Some ?s2"
    by (simp add: forwarder_step_def drained_def)
  from t have 3: "printer_step ?s2 = Some (drained (Suc k) ns)"
    by (simp add: printer_step_def drained_def)
  from 1 2 3 show ?thesis by blast
qed

lemma reaches_drained:
  assumes "0 < cap"
  shows "k \<le> n \<Longrightarrow> k \<le> length ns \<Longrightarrow>
           reaches cap n (listener_start (map Inr ns)) (drained k ns)"
proof (induction k)
  case 0
  show ?case unfolding drained_0 by (rule reaches.start)
next
  case (Suc k)
  then have r: "reaches cap n (listener_start (map Inr ns)) (drained k ns)" by simp
  from Suc.prems assms drained_step [of cap k n ns]
  obtain s1 s2 where s: "forwarder_step cap n (drained k ns) = Some s1"
      "forwarder_step cap n s1 = Some s2" "printer_step s2 = Some (drained (Suc k) ns)"
    by auto
  from r s(1) have "reaches cap n (listener_start (map Inr ns)) s1" by (rule reaches.forward)
  then have "reaches cap n (listener_start (map Inr ns)) s2" using s(2) by (rule reaches.forward)
  then show ?case using s(3) by (rule reaches.print)
qed

lemma reaches_holding_listener:
  "reaches 5 3 (listener_start (map Inr [10, 20, 30, 40, 50])) holding_listener"
proof -
  have "reaches 5 3 (listener_start (map Inr [10, 20, 30, 40, 50::nat]))
          (listener_start (map Inr [10, 20, 30, 40, 50]))"
    by (rule reaches.start)
  then show ?thesis
    by (rule reaches.forward)
       (simp add: forwarder_step_def listener_start_def holding_listener_def)
qed

lemma reaches_ended_listener:
  "reaches 5 3 (listener_start (map Inr [10, 20, 30, 40, 50])) ended_listener"
proof -
  let ?ns = "[10, 20, 30, 40, 50::nat]"
  let ?closed = "(drained 3 ?ns)\<lparr>ln_chan_closed := True, ln_forwarder := Forwarder_closed_channel\<rparr>"
  have "reaches 5 3 (listener_start (map Inr ?ns)) (drained 3 ?ns)"
    by (rule reaches_drained) simp_all
  then have "reaches 5 3 (listener_start (map Inr ?ns)) ?closed"
    by (rule reaches.forward) (simp add: forwarder_step_def drained_def)
  then show ?thesis
    by (rule reaches.print) (simp add: printer_step_def drained_def ended_listener_def)
qed

text \<open>
  Claim C7, as amended. While every \<^verbatim>\<open>WaitForNotification\<close> succeeds, in every state the
  two goroutines of the demo can reach (channel of capacity 5, loop of 3 rounds): the
  notifications received, queued, held by the forwarder and still on the connection are,
  in that order, exactly the emitted sequence, so that none is dropped, repeated or
  moved; what has been received is a prefix of the first three; the channel holds at
  most three notifications, so that it is never full, and a send never waits; every step
  of either goroutine lowers the measure, so that every schedule ends; and once neither
  goroutine can step, exactly the first three notifications (all of them, if fewer came)
  have been received, in the order emitted. The notifications after the third stay on
  the connection.
\<close>

theorem first_three_notifications_delivered_in_order:
  assumes "reaches 5 3 (listener_start (map Inr ns)) s"
  shows "ln_received s @ ln_chan s @
           (case ln_notification s of None \<Rightarrow> [] | Some x \<Rightarrow> [x]) @
           notifications_of (ln_incoming s) = ns
       \<and> prefix (ln_received s) (take 3 ns)
       \<and> length (ln_chan s) \<le> 3
       \<and> (ln_notification s \<noteq> None \<longrightarrow> forwarder_step 5 3 s \<noteq> None)
       \<and> (\<forall>s'. forwarder_step 5 3 s = Some s' \<or> printer_step s = Some s' \<longrightarrow>
              listener_measure s' < listener_measure s)
       \<and> (forwarder_step 5 3 s = None \<and> printer_step s = None \<longrightarrow>
              ln_received s = take 3 ns)"
proof -
  from assms have inv: "listener_inv 5 3 ns s" by (rule reaches_inv)
  then have all: "ln_received s @ ln_chan s @
           (case ln_notification s of None \<Rightarrow> [] | Some x \<Rightarrow> [x]) @
           notifications_of (ln_incoming s) = ns"
    by (simp add: listener_inv_def in_flight_def)
  from inv have len: "length (ln_received s) + length (ln_chan s) \<le> 3"
    by (simp add: listener_inv_def in_flight_def)
  from all obtain rest where "ns = ln_received s @ rest" by metis
  with len have "take 3 ns = ln_received s @ take (3 - length (ln_received s)) rest"
    by simp
  then have pre: "prefix (ln_received s) (take 3 ns)"
    by (metis prefixI)
  from inv have send: "ln_notification s \<noteq> None \<longrightarrow> forwarder_step 5 3 s \<noteq> None"
    using inv_send_enabled [of 5 3 ns s] by simp
  have less: "\<forall>s'. forwarder_step 5 3 s = Some s' \<or> printer_step s = Some s' \<longrightarrow>
              listener_measure s' < listener_measure s"
    using forwarder_step_measure [of 5 3 s] printer_step_measure [of s] by blast
  from inv have ended: "forwarder_step 5 3 s = None \<and> printer_step s = None \<longrightarrow>
              ln_received s = take 3 ns"
    using inv_ended [of 5 3 ns s] by simp
  from all pre len send less ended show ?thesis by simp
qed

theorem first_three_notifications_delivered_in_order_witness:
  "reaches 5 3 (listener_start (map Inr [10, 20, 30, 40, 50])) holding_listener
   \<and> ln_notification holding_listener \<noteq> None
   \<and> forwarder_step 5 3 holding_listener =
       Some (holding_listener\<lparr>ln_chan := [10], ln_notification := None, ln_i := 1\<rparr>)
   \<and> listener_measure (holding_listener\<lparr>ln_chan := [10], ln_notification := None, ln_i := 1\<rparr>)
       < listener_measure holding_listener
   \<and> reaches 5 3 (listener_start (map Inr [10, 20, 30, 40, 50])) ended_listener
   \<and> forwarder_step 5 3 ended_listener = None
   \<and> printer_step ended_listener = None
   \<and> ln_received ended_listener = take 3 [10, 20, 30, 40, 50]"
  using first_three_notifications_delivered_in_order [OF reaches_holding_listener]
    first_three_notifications_delivered_in_order [OF reaches_ended_listener]
    reaches_holding_listener reaches_ended_listener
  by (simp add: holding_listener_def ended_listener_def forwarder_step_def printer_step_def
      listener_measure_def)

text \<open>
  Claim C7 as stated fails: the datastore emits five notifications and the subscriber
  stays connected, yet the run ends, with neither goroutine able to step, after the
  first three have been received; the fourth and the fifth are still on the connection
  and are never delivered.
\<close>

theorem later_notifications_not_delivered_counterexample:
  "reaches 5 3 (listener_start (map Inr [10, 20, 30, 40, 50])) ended_listener
   \<and> forwarder_step 5 3 ended_listener = None
   \<and> printer_step ended_listener = None
   \<and> ln_received ended_listener = [10, 20, 30]
   \<and> ln_chan ended_listener = []
   \<and> ln_incoming ended_listener = [Inr 40, Inr 50]"
  using reaches_ended_listener
  by (simp add: ended_listener_def forwarder_step_def printer_step_def)

section \<open>Properties of batchWithPipeline\<close>

lemma process_results_events:
  "fst (process_results res is t) = map Close_result is"
  by (induction "is" arbitrary: t) (auto split: sum.splits)

lemma process_results_total:
  "snd (process_results res is t) = t + sum_list (map (\<lambda>i. rows_of (res i)) is)"
  by (induction "is" arbitrary: t) (auto simp add: rows_of_def split: sum.splits)

lemma filter_map_Queue [simp]:
  "filter is_queue (map Queue_query is) = map Queue_query is"
  "filter is_close_result (map Queue_query is) = []"
  "filter is_output (map Queue_query is) = []"
  "filter is_queue (map Close_result is) = []"
  "filter is_close_result (map Close_result is) = map Close_result is"
  "filter is_output (map Close_result is) = []"
  by (induction "is") simp_all

text \<open>The \<^verbatim>\<open>pgx.Batch\<close> of \<^verbatim>\<open>batchInserts\<close> is drained the same way: every result is read
  once, in order, and only the number of successes is written out.\<close>

lemma count_inserted_events: "fst (count_inserted exec js c) = map Batch_exec js"
  by (induction js arbitrary: c) (auto split: option.splits)

lemma count_inserted_count:
  "snd (count_inserted exec js c) = c + length (filter (\<lambda>i. exec i = None) js)"
  by (induction js arbitrary: c) (auto split: option.splits)

lemma batchInserts_batch_all_read:
  "batchInserts_batch exec =
     map Batch_queue [0..<100] @ [Batch_send] @ map Batch_exec [0..<100] @
     [Print_inserted (length (filter (\<lambda>i. exec i = None) [0..<100]))]"
  by (simp add: batchInserts_batch_def count_inserted_events count_inserted_count
      del: upt_rec_numeral)

text \<open>
  Claim C5, as amended. When the connection is acquired and the synchronization succeeds,
  each of the 100 statements is queued exactly once and the result of each is closed
  exactly once, in the order of the queue, whatever failed: a failure stops nothing and
  nothing is queued again. Between its heading and its closing text, what the function
  writes out is one line with the total of the rows affected by the statements that
  succeeded, when closing the pipeline succeeds, and nothing otherwise: the failures are
  passed over, not reported one by one.
\<close>

theorem pipeline_results_all_collected:
  assumes "pw_Acquire w = None" and "pw_Sync w = None"
  shows "filter is_queue (batchWithPipeline w) = map Queue_query [0..<100]
       \<and> filter is_close_result (batchWithPipeline w) = map Close_result [0..<100]
       \<and> filter is_output (batchWithPipeline w) =
           Print_heading #
           (if pw_Close w = None
            then [Print_updated (sum_list (map (\<lambda>i. rows_of (pw_result w i)) [0..<100]))]
            else []) @
           [Print_best_practices]"
  using assms
  by (simp add: batchWithPipeline_def process_results_events process_results_total)

theorem pipeline_results_all_collected_witness:
  "pw_Acquire failing_first = None \<and> pw_Sync failing_first = None
   \<and> filter is_queue (batchWithPipeline failing_first) = map Queue_query [0..<100]
   \<and> filter is_close_result (batchWithPipeline failing_first) = map Close_result [0..<100]
   \<and> length (filter is_output (batchWithPipeline failing_first)) = 3"
  using pipeline_results_all_collected [of failing_first]
  by (simp add: failing_first_def del: upt_rec_numeral)

lemma upt_100: "[0..<100] = 0 # 1 # [2..<100]"
  by (simp add: upt_conv_Cons)


lemma rows_tail_agree:
  "map (\<lambda>i. rows_of (pw_result failing_first i)) [2..<100] =
   map (\<lambda>i. rows_of (pw_result failing_second i)) [2..<100]"
  by (rule map_cong [OF refl])
     (auto simp add: failing_first_def failing_second_def simp del: upt_rec_numeral)

lemma failing_totals_agree:
  "sum_list (map (\<lambda>i. rows_of (pw_result failing_first i)) [0..<100]) =
   sum_list (map (\<lambda>i. rows_of (pw_result failing_second i)) [0..<100])"
proof -
  have "sum_list (map (\<lambda>i. rows_of (pw_result failing_first i)) [0..<100]) =
        1 + sum_list (map (\<lambda>i. rows_of (pw_result failing_first i)) [2..<100])"
    unfolding upt_100 by (simp add: failing_first_def rows_of_def del: upt_rec_numeral)
  moreover have "sum_list (map (\<lambda>i. rows_of (pw_result failing_second i)) [0..<100]) =
        1 + sum_list (map (\<lambda>i. rows_of (pw_result failing_second i)) [2..<100])"
    unfolding upt_100 by (simp add: failing_second_def rows_of_def del: upt_rec_numeral)
  ultimately show ?thesis by (simp only: rows_tail_agree)
qed

text \<open>
  Claim C5 as stated fails: the run in which the first statement fails and the run in
  which the second one fails do and write out exactly the same, so that what is reported
  does not tell which statement failed.
\<close>

theorem pipeline_failures_not_reported_counterexample:
  "batchWithPipeline failing_first = batchWithPipeline failing_second
   \<and> pw_result failing_first 0 = Inl (ErrorString ''deadlock detected'')
   \<and> pw_result failing_second 0 = Inr 1"
proof -
  have "batchWithPipeline failing_first = batchWithPipeline failing_second"
    unfolding batchWithPipeline_def process_results_events process_results_total
      failing_totals_agree
    by (simp add: failing_first_def failing_second_def del: upt_rec_numeral)
  then show ?thesis by (simp add: failing_first_def failing_second_def)
qed


section \<open>Properties of the staging table\<close>

text \<open>Between the successful \<^verbatim>\<open>CREATE\<close> and the end of the transaction the table
  exists.\<close>

lemma staging_table_exists_inside_transaction:
  assumes "pool_Begin drv = Inr tx" and "stw_create w = None"
  shows "''batch_updates'' \<in>
           set (ss_tables (foldl datastore s0 (butlast (fst (WithTx drv (batchUpdates_fn w))))))"
  using assms
  by (cases "stw_update w"; cases "tx_Rollback drv tx"; cases "tx_Commit drv tx")
     (simp_all add: WithTx_def WithTx_body_def WithTx_deferred_def batchUpdates_fn_def
        del: upt_rec_numeral)

text \<open>
  Claim C8. Whatever \<^verbatim>\<open>Begin\<close>, the statements, \<^verbatim>\<open>Commit\<close> and \<^verbatim>\<open>Rollback\<close> answer, once
  \<^verbatim>\<open>WithTx\<close> has run the closure of \<^verbatim>\<open>batchUpdates\<close> the staging table does not exist in
  the session if it did not exist before, and none of the statements issued drops a
  table.
\<close>

theorem staging_table_dropped_with_transaction:
  assumes "''batch_updates'' \<notin> set (ss_tables s0)"
  shows "''batch_updates'' \<notin>
           set (ss_tables (foldl datastore s0 (fst (WithTx drv (batchUpdates_fn w)))))
       \<and> filter is_drop (fst (WithTx drv (batchUpdates_fn w))) = []"
proof (cases "pool_Begin drv")
  case (Inl err)
  with assms show ?thesis by (simp add: WithTx_def)
next
  case (Inr tx)
  show ?thesis
  proof (cases "stw_create w")
    case (Some err)
    with Inr assms show ?thesis
      by (cases "tx_Rollback drv tx")
         (simp_all add: WithTx_def WithTx_body_def WithTx_deferred_def batchUpdates_fn_def)
  next
    case None
    with Inr assms show ?thesis
      by (cases "stw_update w"; cases "tx_Rollback drv tx"; cases "tx_Commit drv tx")
         (simp_all add: WithTx_def WithTx_body_def WithTx_deferred_def batchUpdates_fn_def
            insert_batch_updates_def del: upt_rec_numeral)
  qed
qed

theorem staging_table_dropped_with_transaction_witness:
  "''batch_updates'' \<notin> set (ss_tables \<lparr>ss_tables = [''scratch''], ss_staged = []\<rparr>)
   \<and> ss_tables (foldl datastore \<lparr>ss_tables = [''scratch''], ss_staged = []\<rparr>
        (fst (WithTx steady_driver (batchUpdates_fn update_succeeds :: (nat, tx_statement, nat) txfn))))
       = [''scratch'']
   \<and> ss_tables (foldl datastore \<lparr>ss_tables = [''scratch''], ss_staged = []\<rparr>
        (fst (WithTx steady_driver (batchUpdates_fn update_fails :: (nat, tx_statement, nat) txfn))))
       = [''scratch'']
   \<and> last (fst (WithTx steady_driver (batchUpdates_fn update_succeeds :: (nat, tx_statement, nat) txfn)))
       = Commit 7
   \<and> last (fst (WithTx steady_driver (batchUpdates_fn update_fails :: (nat, tx_statement, nat) txfn)))
       = Rollback 7"
  using staging_table_dropped_with_transaction
      [of "\<lparr>ss_tables = [''scratch''], ss_staged = []\<rparr>" steady_driver update_succeeds]
    staging_table_dropped_with_transaction
      [of "\<lparr>ss_tables = [''scratch''], ss_staged = []\<rparr>" steady_driver update_fails]
  by (simp add: WithTx_def WithTx_body_def WithTx_deferred_def batchUpdates_fn_def
      steady_driver_def update_succeeds_def update_fails_def del: upt_rec_numeral)

section \<open>Properties of the choice of the write strategy\<close>



end
